theory Spec2Isabelle
  imports Main
begin

section \<open>Graceful termination of an HTTP service with background jobs\<close>

text \<open>
  The repository holds three Go programs. Each starts an HTTP server whose handler answers
  at once and leaves slow jobs running in goroutines of their own:
  \<^item> \<open>go/wrong-simply/main.go\<close>: no shutdown coordination at all;
  \<^item> the simple graceful server (\<open>sync.WaitGroup\<close>, \<open>wg.Wait()\<close> without a limit);
  \<^item> the graceful server with a grace period (\<open>select\<close> between \<open>ctxJobs.Done()\<close> and
    \<open>time.After(gracePeriod)\<close>).

  The programs are concurrent: the main goroutine, the goroutine around
  \<open>ListenAndServe\<close>, one goroutine per request and one per job, and the operating system that
  delivers signals. The model is an interleaving semantics: a state of the whole process,
  and a function \<open>step\<close> that lets one of them take its next step. The scheduler and the
  environment are the list of events; a statement about every execution is a statement
  about every list of events. The goroutine \<open>mockRequestAndTermination\<close>, which sends one
  request and then \<open>SIGINT\<close> to its own process, belongs to the environment: requests and
  signals are events, and may come in any number and at any moment.

  What the programs get from the Go library is modelled after its documentation:
  \<open>sync.WaitGroup\<close>, \<open>defer\<close>, \<open>select\<close>, \<open>context.WithTimeout\<close>, \<open>time.After\<close>,
  \<open>signal.Notify\<close>, and \<open>ListenAndServe\<close> and \<open>Shutdown\<close> of \<open>http.Server\<close>.
\<close>

subsection \<open>Data\<close>

text \<open>The grace period is the local constant \<open>gracePeriod\<close> of the third program; the
  model keeps it as the argument of the variant.\<close>

type_synonym duration = int

datatype variant = WrongSimply | Simple | WithTimeout duration

text \<open>\<open>time.Duration\<close> counts nanoseconds.\<close>

definition Second :: duration where
  "Second = 1000000000"

definition Hour :: duration where
  "Hour = 3600 * Second"

text \<open>The two signals given to \<open>signal.Notify\<close>.\<close>

datatype signal = SIGINT | SIGTERM

text \<open>The lines the programs print with \<open>logServer\<close>, without their time stamps.\<close>

datatype log_line =
    ServerStarting
  | ListenFailed
  | ServerShutdown
  | HTTPServerShutDown
  | ReceivedSignal signal
  | WaitingShutdown
  | ShutdownFailed
  | WaitingJobs
  | JobsFinished
  | WaitTimeout
  | ServerExiting
  | JobStarting string
  | JobFinished string

text \<open>
  What a handler or a job does, one statement at a time. \<open>Write b\<close> is \<open>w.Write(b)\<close>: the
  bytes go to the buffer of the response, which the server sends when the handler has
  returned. \<open>WgAdd n\<close> is \<open>h.wg.Add(n)\<close>, \<open>Go name arg\<close> is the statement
  \<open>go h.slowJob(name, ...)\<close>, \<open>Log\<close> is \<open>logServer\<close>, \<open>Sleep\<close> is \<open>time.Sleep\<close> and
  \<open>WgDone\<close> is \<open>h.wg.Done()\<close>.
\<close>

datatype action =
    Write string
  | WgAdd int
  | Go string int
  | Log log_line
  | Sleep duration
  | WgDone

text \<open>
  A goroutine: the statements of its body still to run, the deferred calls that run when
  the body is left, and the instant before which it sleeps.
\<close>

record goroutine =
  body :: "action list"
  deferred :: "action list"
  wake :: int

text \<open>
  Where the main goroutine stands in \<open>main\<close>. The lines are those of the program with a
  grace period; the simple one has the same statements up to the wait.
  \<^item> \<open>P_Serve\<close>: in \<open>ListenAndServe\<close> (the first program only, which has nothing else);
  \<^item> \<open>P_Start\<close>: the goroutines are started, \<open>signal.Notify\<close> is not yet called (line 77);
  \<^item> \<open>P_Notified\<close>: \<open>signal.Notify\<close> has returned (line 79);
  \<^item> \<open>P_Recv\<close>: blocked in \<open>sig := <-termChan\<close> (line 81);
  \<^item> \<open>P_Triggered\<close>: a signal is received;
  \<^item> \<open>P_Announced\<close>: the two lines are logged (lines 82 and 83);
  \<^item> \<open>P_Shutdown\<close>: in \<open>httpServer.Shutdown(ctxShutDown)\<close> (line 88);
  \<^item> \<open>P_LogWaiting\<close>: \<open>Shutdown\<close> has returned \<open>nil\<close>, \<open>ctxJobs\<close> is made and the
    goroutine that waits for the jobs is started (lines 93 to 98);
  \<^item> \<open>P_Wait\<close>: the line is logged, \<open>main\<close> is blocked in \<open>select\<close> (line 101), or in
    \<open>wg.Wait()\<close> in the simple program;
  \<^item> \<open>P_Returned\<close>: \<open>main\<close> has returned.
\<close>

datatype pc =
    P_Serve
  | P_Start
  | P_Notified
  | P_Recv
  | P_Triggered
  | P_Announced
  | P_Shutdown
  | P_LogWaiting
  | P_Wait
  | P_Returned

text \<open>The goroutine around \<open>ListenAndServe\<close>: not yet run, serving, ended.\<close>

datatype lstate = L_Init | L_Serving | L_Done

text \<open>
  The process runs, has exited with a status, was ended by a signal, or has died of a
  panic (a negative \<open>WaitGroup\<close> counter).
\<close>

datatype status = Running | Exited nat | Killed signal | Panicked

text \<open>
  What \<open>Shutdown\<close> returns: \<open>nil\<close>, the error of its context (\<open>ctxShutDown\<close>, five
  seconds), or the error of closing the listener.
\<close>

datatype shutdown_result = Drained | DeadlineExceeded | CloseFailed

text \<open>
  The state of the process. \<open>now\<close> is the clock in nanoseconds; \<open>sig\<close> is the variable
  \<open>sig\<close> of \<open>main\<close>; \<open>wg\<close> is the counter of the \<open>WaitGroup\<close>; \<open>ctx_deadline\<close> and
  \<open>ctx_cancelled\<close> are \<open>ctxJobs\<close>; \<open>after_deadline\<close> is the timer of \<open>time.After\<close>.
\<close>

record state =
  status :: status
  now :: int
  pc :: pc
  listener :: lstate
  sig :: "signal option"
  handlers :: "goroutine list"
  jobs :: "goroutine list"
  wg :: int
  shutdown_deadline :: int
  ctx_deadline :: int
  ctx_cancelled :: bool
  after_deadline :: int
  log :: "log_line list"

text \<open>
  What can happen next: time passes; \<open>main\<close> runs on (the flag says which case a
  \<open>select\<close> with two ready cases takes); the goroutine around \<open>ListenAndServe\<close> runs on;
  \<open>ListenAndServe\<close> fails; a signal arrives; a request is accepted (with the three numbers
  drawn for its jobs); the handler of request \<open>i\<close> or job \<open>j\<close> runs one statement;
  \<open>Shutdown\<close> returns; the goroutine \<open>wg.Wait(); cancelJobs()\<close> runs on.
\<close>

datatype event =
    Advance nat
  | MainStep bool
  | ListenerStep
  | ListenError
  | Sig signal
  | Request nat nat nat
  | Handler nat
  | Job nat
  | ShutdownReturns shutdown_result
  | Waiter

subsection \<open>The handler and its jobs\<close>

text \<open>
  \<open>ServeHTTP\<close> of the three programs. The three numbers are what \<open>rand.Intn(4)\<close> returns
  for the three jobs (any number, reduced modulo 4). In the program with a grace period
  the handler computes the durations itself and starts a fourth job of one hour; in the
  other two \<open>slowJob\<close> draws its own duration, and \<open>Go\<close> hands it the number drawn.
\<close>

definition Intn4 :: "nat \<Rightarrow> int" where
  "Intn4 r = int (r mod 4)"

fun ServeHTTP :: "variant \<Rightarrow> nat \<Rightarrow> nat \<Rightarrow> nat \<Rightarrow> action list" where
  "ServeHTTP WrongSimply r1 r2 r3 =
     [Write ''job started'',
      Go ''job1'' (Intn4 r1), Go ''job2'' (Intn4 r2), Go ''job3'' (Intn4 r3)]"
| "ServeHTTP Simple r1 r2 r3 =
     [Write ''job started'', WgAdd 3,
      Go ''job1'' (Intn4 r1), Go ''job2'' (Intn4 r2), Go ''job3'' (Intn4 r3)]"
| "ServeHTTP (WithTimeout g) r1 r2 r3 =
     [Write ''job started'', WgAdd 4,
      Go ''job1'' ((1 + Intn4 r1) * Second),
      Go ''job2'' ((1 + Intn4 r2) * Second),
      Go ''job3'' ((1 + Intn4 r3) * Second),
      Go ''job4 very slow'' Hour]"

text \<open>
  \<open>slowJob\<close>. In the two graceful programs its first statement is
  \<open>defer h.wg.Done()\<close>, so \<open>WgDone\<close> is a deferred call and not part of the body.
\<close>

fun slowJob :: "variant \<Rightarrow> string \<Rightarrow> int \<Rightarrow> goroutine" where
  "slowJob WrongSimply name r =
     \<lparr>body = [Log (JobStarting name), Sleep ((1 + r) * Second), Log (JobFinished name)],
      deferred = [], wake = 0\<rparr>"
| "slowJob Simple name r =
     \<lparr>body = [Log (JobStarting name), Sleep ((1 + r) * Second), Log (JobFinished name)],
      deferred = [WgDone], wake = 0\<rparr>"
| "slowJob (WithTimeout g) name dur =
     \<lparr>body = [Log (JobStarting name), Sleep dur, Log (JobFinished name)],
      deferred = [WgDone], wake = 0\<rparr>"


definition performed :: "goroutine \<Rightarrow> action list" where
  "performed g = body g @ deferred g"

subsection \<open>One step of a goroutine\<close>

text \<open>\<open>WaitGroup.Add\<close> panics when the counter would become negative; \<open>Done\<close> is
  \<open>Add(-1)\<close>.\<close>

definition wg_add :: "int \<Rightarrow> state \<Rightarrow> state" where
  "wg_add n s = (if wg s + n < 0 then s\<lparr>status := Panicked\<rparr> else s\<lparr>wg := wg s + n\<rparr>)"

fun exec :: "variant \<Rightarrow> action \<Rightarrow> state \<Rightarrow> state" where
  "exec v (Write b) s = s"
| "exec v (WgAdd n) s = wg_add n s"
| "exec v (Go name arg) s = s\<lparr>jobs := jobs s @ [slowJob v name arg]\<rparr>"
| "exec v (Log l) s = s\<lparr>log := log s @ [l]\<rparr>"
| "exec v (Sleep d) s = s"
| "exec v WgDone s = wg_add (- 1) s"

definition next_action :: "goroutine \<Rightarrow> (action \<times> goroutine) option" where
  "next_action g =
     (case body g of
        a # as \<Rightarrow> Some (a, g\<lparr>body := as\<rparr>)
      | [] \<Rightarrow> (case deferred g of
                 a # as \<Rightarrow> Some (a, g\<lparr>deferred := as\<rparr>)
               | [] \<Rightarrow> None))"

definition sleep_until :: "action \<Rightarrow> int \<Rightarrow> goroutine \<Rightarrow> goroutine" where
  "sleep_until a t g = (case a of Sleep d \<Rightarrow> g\<lparr>wake := t + d\<rparr> | _ \<Rightarrow> g)"

text \<open>A goroutine that sleeps or has ended does nothing; otherwise it runs one
  statement.\<close>

definition resume :: "variant \<Rightarrow> goroutine \<Rightarrow> state \<Rightarrow> goroutine \<times> state" where
  "resume v g s =
     (if now s < wake g then (g, s)
      else case next_action g of
             None \<Rightarrow> (g, s)
           | Some (a, g') \<Rightarrow> (sleep_until a (now s) g', exec v a s))"

definition finished :: "goroutine \<Rightarrow> bool" where
  "finished g = (body g = [] \<and> deferred g = [])"

definition idle :: "state \<Rightarrow> bool" where
  "idle s = list_all finished (handlers s)"

definition handler_step :: "variant \<Rightarrow> nat \<Rightarrow> state \<Rightarrow> state" where
  "handler_step v i s =
     (if i < length (handlers s)
      then (case resume v (handlers s ! i) s of
              (g', s') \<Rightarrow> s'\<lparr>handlers := (handlers s')[i := g']\<rparr>)
      else s)"

definition job_step :: "variant \<Rightarrow> nat \<Rightarrow> state \<Rightarrow> state" where
  "job_step v j s =
     (if j < length (jobs s)
      then (case resume v (jobs s ! j) s of
              (g', s') \<Rightarrow> s'\<lparr>jobs := (jobs s')[j := g']\<rparr>)
      else s)"

subsection \<open>The listener\<close>

text \<open>
  \<open>http.Server.Shutdown\<close> sets the server's shutdown flag when it is called; from then on
  \<open>ListenAndServe\<close> returns \<open>ErrServerClosed\<close> and no request is accepted.
\<close>

definition in_shutdown :: "state \<Rightarrow> bool" where
  "in_shutdown s = (pc s \<in> {P_Shutdown, P_LogWaiting, P_Wait, P_Returned})"

definition accept :: "variant \<Rightarrow> nat \<Rightarrow> nat \<Rightarrow> nat \<Rightarrow> state \<Rightarrow> state" where
  "accept v r1 r2 r3 s =
     (if listener s = L_Serving \<and> \<not> in_shutdown s
      then s\<lparr>handlers := handlers s @ [\<lparr>body = ServeHTTP v r1 r2 r3, deferred = [], wake = 0\<rparr>]\<rparr>
      else s)"

text \<open>
  The goroutine around \<open>ListenAndServe\<close> of the graceful programs: it logs, serves, and
  when \<open>ListenAndServe\<close> returns \<open>ErrServerClosed\<close> it logs again and ends.
\<close>

definition listener_step :: "variant \<Rightarrow> state \<Rightarrow> state" where
  "listener_step v s =
     (if v = WrongSimply then s
      else case listener s of
             L_Init \<Rightarrow> s\<lparr>listener := L_Serving, log := log s @ [ServerStarting]\<rparr>
           | L_Serving \<Rightarrow>
               (if in_shutdown s
                then s\<lparr>listener := L_Done, log := log s @ [ServerShutdown]\<rparr>
                else s)
           | L_Done \<Rightarrow> s)"

text \<open>
  \<open>ListenAndServe\<close> returns another error (the address cannot be bound, accepting
  fails): the graceful programs log it and call \<open>os.Exit(1)\<close>; so does the first program,
  with its own message.
\<close>

definition listen_error :: "variant \<Rightarrow> state \<Rightarrow> state" where
  "listen_error v s =
     (if listener s = L_Serving \<and> \<not> in_shutdown s
      then s\<lparr>status := Exited 1,
             log := log s @ [if v = WrongSimply then HTTPServerShutDown else ListenFailed]\<rparr>
      else s)"

subsection \<open>Signals\<close>

text \<open>
  Before \<open>signal.Notify\<close> (and always in the first program, which never calls it)
  \<open>SIGINT\<close> and \<open>SIGTERM\<close> end the process. After it, package \<open>signal\<close> relays them to
  \<open>termChan\<close> with a send that does not block. \<open>termChan\<close> is made by
  \<open>make(chan os.Signal)\<close>, without a buffer, so the send succeeds only when \<open>main\<close> is
  blocked in \<open>sig := <-termChan\<close>, and the signal is dropped otherwise. The event
  \<open>Sig\<close> is the moment of that send.
\<close>

definition deliver :: "variant \<Rightarrow> signal \<Rightarrow> state \<Rightarrow> state" where
  "deliver v sg s =
     (if v = WrongSimply \<or> pc s = P_Start then s\<lparr>status := Killed sg\<rparr>
      else if pc s = P_Recv then s\<lparr>sig := Some sg, pc := P_Triggered\<rparr>
      else s)"

subsection \<open>The main goroutine\<close>

text \<open>
  \<open>Shutdown\<close> returns the result of closing the listeners once no handler is running, and
  the error of its context when that expires first. An error makes \<open>main\<close> log it and call
  \<open>os.Exit(1)\<close>. Without one, the program with a grace period goes on to create \<open>ctxJobs\<close>
  and to start the goroutine that waits for the jobs.
\<close>

definition shutdown_fails :: "state \<Rightarrow> state" where
  "shutdown_fails s = s\<lparr>status := Exited 1, log := log s @ [ShutdownFailed]\<rparr>"

definition shutdown_returns :: "variant \<Rightarrow> shutdown_result \<Rightarrow> state \<Rightarrow> state" where
  "shutdown_returns v r s =
     (if v = WrongSimply \<or> pc s \<noteq> P_Shutdown then s
      else case r of
             Drained \<Rightarrow>
               (if idle s
                then (case v of
                        WithTimeout g \<Rightarrow> s\<lparr>pc := P_LogWaiting, ctx_deadline := now s + g\<rparr>
                      | _ \<Rightarrow> s\<lparr>pc := P_LogWaiting\<rparr>)
                else s)
           | DeadlineExceeded \<Rightarrow>
               (if shutdown_deadline s \<le> now s \<and> \<not> idle s then shutdown_fails s else s)
           | CloseFailed \<Rightarrow>
               (if idle s then shutdown_fails s else s))"

text \<open>The goroutine \<open>wg.Wait(); cancelJobs()\<close> of the program with a grace period.\<close>

definition waiter_step :: "variant \<Rightarrow> state \<Rightarrow> state" where
  "waiter_step v s =
     (case v of
        WithTimeout g \<Rightarrow>
          (if pc s \<in> {P_LogWaiting, P_Wait} \<and> wg s = 0 then s\<lparr>ctx_cancelled := True\<rparr> else s)
      | _ \<Rightarrow> s)"

text \<open>\<open>main\<close> returns: the last log line, and the process exits with status 0.\<close>

definition main_returns :: "log_line \<Rightarrow> state \<Rightarrow> state" where
  "main_returns l s =
     s\<lparr>status := Exited 0, pc := P_Returned, log := log s @ [l, ServerExiting]\<rparr>"

text \<open>
  The wait for the jobs. The simple program blocks in \<open>wg.Wait()\<close> until the counter is
  zero. The other one blocks in \<open>select\<close>. Its first case, \<open>ctxJobs.Done()\<close>, can proceed
  when \<open>cancelJobs\<close> has been called and also when the deadline of \<open>ctxJobs\<close> has passed:
  \<open>ctxJobs\<close> is made by \<open>context.WithTimeout\<close> with the grace period. Its second case can
  proceed when the timer of \<open>time.After\<close> has fired. \<open>select\<close> blocks until a case can
  proceed, and takes either when both can (the argument \<open>first\<close>).
\<close>

definition ctx_done :: "state \<Rightarrow> bool" where
  "ctx_done s = (ctx_cancelled s \<or> ctx_deadline s \<le> now s)"

definition after_fired :: "state \<Rightarrow> bool" where
  "after_fired s = (after_deadline s \<le> now s)"

definition wait_jobs :: "variant \<Rightarrow> bool \<Rightarrow> state \<Rightarrow> state" where
  "wait_jobs v first s =
     (case v of
        WithTimeout g \<Rightarrow>
          (if ctx_done s \<and> (first \<or> \<not> after_fired s) then main_returns JobsFinished s
           else if after_fired s then main_returns WaitTimeout s
           else s)
      | _ \<Rightarrow> (if wg s = 0 then main_returns JobsFinished s else s))"

definition main_step :: "variant \<Rightarrow> bool \<Rightarrow> state \<Rightarrow> state" where
  "main_step v first s =
     (case pc s of
        P_Serve \<Rightarrow> s
      | P_Start \<Rightarrow> s\<lparr>pc := P_Notified\<rparr>
      | P_Notified \<Rightarrow> s\<lparr>pc := P_Recv\<rparr>
      | P_Recv \<Rightarrow> s
      | P_Triggered \<Rightarrow>
          (case sig s of
             None \<Rightarrow> s
           | Some sg \<Rightarrow>
               s\<lparr>pc := P_Announced, log := log s @ [ReceivedSignal sg, WaitingShutdown]\<rparr>)
      | P_Announced \<Rightarrow> s\<lparr>pc := P_Shutdown, shutdown_deadline := now s + 5 * Second\<rparr>
      | P_Shutdown \<Rightarrow> s
      | P_LogWaiting \<Rightarrow>
          (case v of
             WithTimeout g \<Rightarrow>
               s\<lparr>pc := P_Wait, after_deadline := now s + g, log := log s @ [WaitingJobs]\<rparr>
           | _ \<Rightarrow> s\<lparr>pc := P_Wait, log := log s @ [WaitingJobs]\<rparr>)
      | P_Wait \<Rightarrow> wait_jobs v first s
      | P_Returned \<Rightarrow> s)"

subsection \<open>The process\<close>

text \<open>Once the process has exited nothing happens any more.\<close>

fun perform :: "variant \<Rightarrow> event \<Rightarrow> state \<Rightarrow> state" where
  "perform v (Advance d) s = s\<lparr>now := now s + int d\<rparr>"
| "perform v (MainStep first) s = main_step v first s"
| "perform v ListenerStep s = listener_step v s"
| "perform v ListenError s = listen_error v s"
| "perform v (Sig sg) s = deliver v sg s"
| "perform v (Request r1 r2 r3) s = accept v r1 r2 r3 s"
| "perform v (Handler i) s = handler_step v i s"
| "perform v (Job j) s = job_step v j s"
| "perform v (ShutdownReturns r) s = shutdown_returns v r s"
| "perform v Waiter s = waiter_step v s"

definition step :: "variant \<Rightarrow> event \<Rightarrow> state \<Rightarrow> state" where
  "step v e s = (if status s = Running then perform v e s else s)"

fun run :: "variant \<Rightarrow> event list \<Rightarrow> state \<Rightarrow> state" where
  "run v [] s = s"
| "run v (e # es) s = run v es (step v e s)"

text \<open>
  The start: \<open>main\<close> has set up the server and started its goroutines. In the first
  program \<open>main\<close> itself is in \<open>ListenAndServe\<close>.
\<close>

definition init :: "variant \<Rightarrow> state" where
  "init v =
     \<lparr>status = Running, now = 0,
      pc = (if v = WrongSimply then P_Serve else P_Start),
      listener = (if v = WrongSimply then L_Serving else L_Init),
      sig = None, handlers = [], jobs = [], wg = 0,
      shutdown_deadline = 0, ctx_deadline = 0, ctx_cancelled = False, after_deadline = 0,
      log = []\<rparr>"

definition exit_code :: "state \<Rightarrow> nat option" where
  "exit_code s = (case status s of Exited n \<Rightarrow> Some n | _ \<Rightarrow> None)"

subsection \<open>Measures of the work in flight\<close>

text \<open>
  \<open>pending\<close> of the statements a handler still has to run: the jobs it will start less
  the units it will add to the wait group. For a handler that has done its \<open>Add\<close> this is
  the number of units registered and not yet started.
\<close>

fun pending :: "action list \<Rightarrow> int" where
  "pending [] = 0"
| "pending (Go name arg # as) = pending as + 1"
| "pending (WgAdd n # as) = pending as - n"
| "pending (a # as) = pending as"

fun handler_action :: "action \<Rightarrow> bool" where
  "handler_action (Write b) = True"
| "handler_action (WgAdd n) = True"
| "handler_action (Go name arg) = True"
| "handler_action a = False"

text \<open>A handler never starts a job that it has not registered before.\<close>

fun registers_first :: "action list \<Rightarrow> bool" where
  "registers_first [] = True"
| "registers_first (a # as) =
     (handler_action a \<and> 0 \<le> pending (a # as) \<and> registers_first as)"

fun job_line :: "log_line \<Rightarrow> bool" where
  "job_line (JobStarting name) = True"
| "job_line (JobFinished name) = True"
| "job_line l = False"

fun job_action :: "action \<Rightarrow> bool" where
  "job_action (Log l) = job_line l"
| "job_action (Sleep d) = True"
| "job_action WgDone = True"
| "job_action a = False"

text \<open>The calls of \<open>Done\<close> a job still has to make, and whether it has one to make.\<close>

definition dones :: "goroutine \<Rightarrow> int" where
  "dones g = int (count_list (performed g) WgDone)"

definition outstanding :: "goroutine \<Rightarrow> bool" where
  "outstanding g = (WgDone \<in> set (performed g))"

definition handler_ok :: "goroutine \<Rightarrow> bool" where
  "handler_ok g = (deferred g = [] \<and> registers_first (body g))"

definition job_ok :: "goroutine \<Rightarrow> bool" where
  "job_ok g = (list_all job_action (performed g) \<and> dones g \<le> 1)"

definition registered :: "state \<Rightarrow> int" where
  "registered s =
     sum_list (map (\<lambda>h. pending (body h)) (handlers s)) + sum_list (map dones (jobs s))"

definition awaiting_dispatch :: "state \<Rightarrow> int" where
  "awaiting_dispatch s = sum_list (map (\<lambda>h. pending (body h)) (handlers s))"

definition units_outstanding :: "state \<Rightarrow> nat" where
  "units_outstanding s = length (filter outstanding (jobs s))"

text \<open>A shutdown sequence starts with the line \<open>received signal\<close>.\<close>

fun is_received :: "log_line \<Rightarrow> bool" where
  "is_received (ReceivedSignal sg) = True"
| "is_received l = False"

definition shutdowns :: "state \<Rightarrow> nat" where
  "shutdowns s = length (filter is_received (log s))"

subsection \<open>Invariants\<close>

text \<open>
  What holds in every state that the graceful programs reach:
  \<^item> \<open>tracked\<close>: no goroutine has panicked, handlers register before they start a job,
    jobs only log, sleep and call \<open>Done\<close> at most once, and the counter is the number of
    units registered that have not called \<open>Done\<close>;
  \<^item> \<open>quiet\<close>: once \<open>Shutdown\<close> has returned without error every handler has returned;
  \<^item> \<open>once\<close>: the shutdown is announced once \<open>main\<close> is past the announcement, and not
    before;
  \<^item> \<open>fatal\<close>: the two errors that are logged end the process with status 1, where they
    occur;
  \<^item> \<open>waited\<close>: the lines of the wait are logged where \<open>main\<close> stands past them, and
    \<open>main\<close> has returned when and only when the process has exited with status 0.
\<close>

definition tracked :: "state \<Rightarrow> bool" where
  "tracked s =
     (status s \<noteq> Panicked \<and> list_all handler_ok (handlers s) \<and> list_all job_ok (jobs s)
      \<and> wg s = registered s)"

definition quiet :: "state \<Rightarrow> bool" where
  "quiet s = (pc s \<in> {P_LogWaiting, P_Wait, P_Returned} \<longrightarrow> idle s)"

definition once :: "state \<Rightarrow> bool" where
  "once s = (shutdowns s = (if pc s = P_Announced \<or> in_shutdown s then 1 else 0))"

definition fatal :: "state \<Rightarrow> bool" where
  "fatal s =
     ((ShutdownFailed \<in> set (log s) \<longrightarrow> status s = Exited 1 \<and> pc s = P_Shutdown) \<and>
      (ListenFailed \<in> set (log s) \<longrightarrow> status s = Exited 1 \<and> \<not> in_shutdown s))"

definition waited :: "state \<Rightarrow> bool" where
  "waited s =
     ((WaitingJobs \<in> set (log s) \<longleftrightarrow> pc s \<in> {P_Wait, P_Returned}) \<and>
      (JobsFinished \<in> set (log s) \<or> WaitTimeout \<in> set (log s) \<longleftrightarrow> pc s = P_Returned) \<and>
      (pc s = P_Returned \<longleftrightarrow> status s = Exited 0))"

definition inv :: "state \<Rightarrow> bool" where
  "inv s = (tracked s \<and> quiet s \<and> once s \<and> fatal s \<and> waited s)"

text \<open>
  A job is stuck behind the wait of the simple program: \<open>main\<close> is in \<open>wg.Wait()\<close> and
  job \<open>j\<close> has not called \<open>Done\<close>.
\<close>

definition stuck :: "nat \<Rightarrow> state \<Rightarrow> bool" where
  "stuck j s =
     (pc s = P_Wait \<and> status s = Running \<and> j < length (jobs s) \<and> outstanding (jobs s ! j))"

subsection \<open>Executions\<close>

text \<open>
  The program with a grace period as the repository has it: thirty seconds.
\<close>

definition with_grace :: variant where
  "with_grace = WithTimeout (30 * Second)"

text \<open>
  Pieces of executions, after the run shown in the README: the server starts and \<open>main\<close>
  blocks in the receive; a request is served (its jobs get 1, 2 and 3 seconds); every job
  logs its start and goes to sleep; two seconds later job 1 has finished, \<open>SIGINT\<close>
  arrives, and \<open>main\<close> logs it and calls \<open>Shutdown\<close>.
\<close>

definition startup :: "event list" where
  "startup = [ListenerStep, MainStep True, MainStep True]"

definition request_served :: "event list" where
  "request_served =
     [Request 0 1 2, Handler 0, Handler 0, Handler 0, Handler 0, Handler 0, Handler 0]"

definition jobs_started :: "event list" where
  "jobs_started = [Job 0, Job 1, Job 2, Job 3, Job 0, Job 1, Job 2, Job 3]"

definition interrupted :: "event list" where
  "interrupted =
     [Advance 2000000000, Job 0, Job 0, Sig SIGINT, MainStep True, MainStep True]"

definition triggered :: "event list" where
  "triggered = startup @ request_served @ jobs_started @ interrupted"

text \<open>\<open>Shutdown\<close> returns \<open>nil\<close> and \<open>main\<close> reaches the wait.\<close>

definition waiting :: "event list" where
  "waiting = triggered @ [ShutdownReturns Drained, MainStep True]"

text \<open>The same without any request.\<close>

definition no_work :: "event list" where
  "no_work =
     startup @
     [Sig SIGTERM, MainStep True, MainStep True, ShutdownReturns Drained, MainStep True]"

text \<open>
  The job of one hour is still asleep when the grace period ends. A microsecond passes
  between \<open>context.WithTimeout\<close> and \<open>time.After\<close>, and \<open>main\<close> runs on as soon as one
  case of the \<open>select\<close> can proceed.
\<close>

definition grace_exceeded :: "event list" where
  "grace_exceeded =
     triggered @
     [ShutdownReturns Drained, ListenerStep, Advance 1000, MainStep True,
      Advance 3000000000, Job 1, Job 1, Job 2, Job 2,
      Advance 26999999000, MainStep False]"

text \<open>
  The same with no time between the two timers: both cases can proceed at the deadline,
  and \<open>select\<close> takes the second.
\<close>

definition grace_exceeded_tie :: "event list" where
  "grace_exceeded_tie =
     waiting @
     [Advance 3000000000, Job 1, Job 1, Job 2, Job 2, Advance 27000000000, MainStep False]"

text \<open>No request was served, and the goroutine that waits for the jobs cancels
  \<open>ctxJobs\<close>.\<close>

definition all_finished :: "event list" where
  "all_finished = no_work @ [Advance 1000, Waiter, MainStep False]"


text \<open>The address cannot be bound; what follows changes nothing.\<close>

definition listen_fails :: "event list" where
  "listen_fails =
     [ListenerStep, MainStep True, ListenError, MainStep True, Sig SIGINT, MainStep True]"


text \<open>
  \<open>SIGINT\<close> arrives after \<open>signal.Notify\<close> has returned and before \<open>main\<close> blocks in the
  receive; an hour later nothing has happened.
\<close>

definition early_trigger :: "event list" where
  "early_trigger =
     [ListenerStep, MainStep True, Sig SIGINT, MainStep True, Advance 3600000000000,
      MainStep True, ListenerStep, MainStep True]"

text \<open>The same signal before \<open>signal.Notify\<close> is called.\<close>

definition trigger_before_notify :: "event list" where
  "trigger_before_notify = [ListenerStep, Sig SIGINT, MainStep True, MainStep True]"


text \<open>An hour during which job 2 (the second one) does not run.\<close>

definition job2_never_ends :: "event list" where
  "job2_never_ends =
     [Advance 3600000000000, MainStep True, Job 2, Job 2, Job 2, Sig SIGINT, MainStep True]"

section \<open>Invariants of every execution\<close>

subsection \<open>Lists\<close>

lemma list_all_update: "list_all P xs \<Longrightarrow> P y \<Longrightarrow> list_all P (xs[i := y])"
  by (induction xs arbitrary: i) (auto split: nat.splits)

lemma list_all_nth: "list_all P xs \<Longrightarrow> i < length xs \<Longrightarrow> P (xs ! i)"
  by (simp add: list_all_length)

lemma sum_list_map_update:
  fixes f :: "'a \<Rightarrow> int"
  shows "i < length xs \<Longrightarrow> sum_list (map f (xs[i := y])) = sum_list (map f xs) - f (xs ! i) + f y"
  by (induction xs arbitrary: i) (auto split: nat.splits)

lemma nth_le_sum_list:
  fixes f :: "'a \<Rightarrow> int"
  shows "list_all (\<lambda>x. 0 \<le> f x) xs \<Longrightarrow> i < length xs \<Longrightarrow> f (xs ! i) \<le> sum_list (map f xs)"
proof (induction xs arbitrary: i)
  case Nil
  then show ?case by simp
next
  case (Cons x xs)
  have nonneg: "0 \<le> sum_list (map f xs)"
    using Cons.prems(1) by (intro sum_list_nonneg) (auto simp: list_all_iff)
  show ?case
  proof (cases i)
    case 0
    then show ?thesis using nonneg by simp
  next
    case (Suc k)
    have "f (xs ! k) \<le> sum_list (map f xs)"
      using Cons.IH [of k] Cons.prems Suc by simp
    moreover have "0 \<le> f x"
      using Cons.prems(1) by simp
    ultimately show ?thesis using Suc by simp
  qed
qed

subsection \<open>Goroutines\<close>

lemma next_action_performed:
  "next_action g = Some (a, g') \<Longrightarrow> performed g = a # performed g'"
  by (auto simp: next_action_def performed_def split: list.splits)

lemma next_action_None: "next_action g = None \<Longrightarrow> finished g"
  by (auto simp: next_action_def finished_def split: list.splits)

lemma performed_sleep_until [simp]: "performed (sleep_until a t g) = performed g"
  by (cases a) (simp_all add: sleep_until_def performed_def)

lemma registers_first_pending: "registers_first as \<Longrightarrow> 0 \<le> pending as"
  by (cases as) auto

lemma handler_ok_pending: "list_all handler_ok hs \<Longrightarrow> list_all (\<lambda>h. 0 \<le> pending (body h)) hs"
  by (auto simp: list_all_iff handler_ok_def registers_first_pending)

lemma ServeHTTP_ok: "registers_first (ServeHTTP v r1 r2 r3)"
  by (cases v) simp_all

lemma ServeHTTP_pending: "v \<noteq> WrongSimply \<Longrightarrow> pending (ServeHTTP v r1 r2 r3) = 0"
  by (cases v) simp_all

lemma slowJob_ok: "job_ok (slowJob v name arg)"
  by (cases v) (simp_all add: job_ok_def performed_def dones_def)

lemma slowJob_dones: "v \<noteq> WrongSimply \<Longrightarrow> dones (slowJob v name arg) = 1"
  by (cases v) (simp_all add: performed_def dones_def)

subsection \<open>The work tracker\<close>

lemma handler_step_cases:
  assumes "i < length (handlers s)" and "handler_ok (handlers s ! i)"
  obtains
    (stay) "handler_step v i s = s"
  | (wr) b rest where "body (handlers s ! i) = Write b # rest"
      "handler_step v i s = s\<lparr>handlers := (handlers s)[i := (handlers s ! i)\<lparr>body := rest\<rparr>]\<rparr>"
  | (add) n rest where "body (handlers s ! i) = WgAdd n # rest"
      "handler_step v i s = (wg_add n s)\<lparr>handlers := (handlers s)[i := (handlers s ! i)\<lparr>body := rest\<rparr>]\<rparr>"
  | (go) name arg rest where "body (handlers s ! i) = Go name arg # rest"
      "handler_step v i s =
         s\<lparr>jobs := jobs s @ [slowJob v name arg],
           handlers := (handlers s)[i := (handlers s ! i)\<lparr>body := rest\<rparr>]\<rparr>"
proof (cases "now s < wake (handlers s ! i)")
  case True
  then have "handler_step v i s = s"
    using assms(1) by (simp add: handler_step_def resume_def)
  then show ?thesis by (rule stay)
next
  case False
  show ?thesis
  proof (cases "body (handlers s ! i)")
    case Nil
    then have "handler_step v i s = s"
      using assms by (simp add: handler_step_def resume_def next_action_def handler_ok_def)
    then show ?thesis by (rule stay)
  next
    case (Cons a rest)
    then have ha: "handler_action a"
      using assms(2) by (simp add: handler_ok_def)
    show ?thesis
    proof (cases a)
      case (Write b)
      with Cons False assms(1) show ?thesis
        by (intro wr [of b rest]) (simp_all add: handler_step_def resume_def next_action_def sleep_until_def)
    next
      case (WgAdd n)
      with Cons False assms(1) show ?thesis
        by (intro add [of n rest]) (simp_all add: handler_step_def resume_def next_action_def sleep_until_def wg_add_def)
    next
      case (Go name arg)
      with Cons False assms(1) show ?thesis
        by (intro go [of name arg rest]) (simp_all add: handler_step_def resume_def next_action_def sleep_until_def)
    qed (use ha in simp_all)
  qed
qed

lemma tracked_handler_step:
  assumes v: "v \<noteq> WrongSimply" and t: "tracked s"
  shows "tracked (handler_step v i s)"
proof (cases "i < length (handlers s)")
  case False
  then show ?thesis using t by (simp add: handler_step_def)
next
  case True
  let ?h = "handlers s ! i"
  have ok: "handler_ok ?h"
    using t True by (simp add: tracked_def list_all_nth)
  have nonneg: "list_all (\<lambda>h. 0 \<le> pending (body h)) (handlers s)"
    using t by (simp add: tracked_def handler_ok_pending)
  have le: "pending (body ?h) \<le> sum_list (map (\<lambda>h. pending (body h)) (handlers s))"
    using nonneg True by (rule nth_le_sum_list)
  have dn: "0 \<le> sum_list (map dones (jobs s))"
    by (intro sum_list_nonneg) (auto simp: dones_def)
  from True ok show ?thesis
  proof (cases rule: handler_step_cases [where v = v])
    case stay
    then show ?thesis using t by simp
  next
    case (wr b rest)
    have "handler_ok (?h\<lparr>body := rest\<rparr>)"
      using ok wr(1) by (simp add: handler_ok_def)
    then show ?thesis
      using t True wr 
      by (simp add: tracked_def registered_def list_all_update sum_list_map_update)
  next
    case (add n rest)
    have ok': "handler_ok (?h\<lparr>body := rest\<rparr>)" and p: "pending (body ?h) = pending rest - n" and p0: "0 \<le> pending rest"
      using ok add(1) by (auto simp: handler_ok_def registers_first_pending)
    have "0 \<le> wg s + n"
      using t le dn p p0 by (simp add: tracked_def registered_def)
    then show ?thesis
      using t True add ok' p 
      by (simp add: tracked_def registered_def list_all_update sum_list_map_update wg_add_def)
  next
    case (go name arg rest)
    have ok': "handler_ok (?h\<lparr>body := rest\<rparr>)" and p: "pending (body ?h) = pending rest + 1"
      using ok go(1) by (auto simp: handler_ok_def)
    show ?thesis
      using t True go ok' p  v
      by (simp add: tracked_def registered_def list_all_update sum_list_map_update slowJob_ok slowJob_dones)
  qed
qed

lemma exec_fields [simp]:
  "pc (exec v a s) = pc s" "handlers (exec v a s) = handlers s" "now (exec v a s) = now s"
  "sig (exec v a s) = sig s" "listener (exec v a s) = listener s"
  "shutdown_deadline (exec v a s) = shutdown_deadline s" "ctx_deadline (exec v a s) = ctx_deadline s"
  "ctx_cancelled (exec v a s) = ctx_cancelled s" "after_deadline (exec v a s) = after_deadline s"
  by (cases a; simp add: wg_add_def)+

lemma resume_fields:
  assumes "resume v g s = (g', s')"
  shows "pc s' = pc s" "handlers s' = handlers s" "now s' = now s"
  "sig s' = sig s" "listener s' = listener s"
  "shutdown_deadline s' = shutdown_deadline s" "ctx_deadline s' = ctx_deadline s"
  "ctx_cancelled s' = ctx_cancelled s" "after_deadline s' = after_deadline s"
  using assms by (auto simp: resume_def split: if_splits option.splits)

lemma handler_step_fields [simp]:
  "pc (handler_step v i s) = pc s" "now (handler_step v i s) = now s"
  "sig (handler_step v i s) = sig s" "listener (handler_step v i s) = listener s"
  "shutdown_deadline (handler_step v i s) = shutdown_deadline s"
  "ctx_deadline (handler_step v i s) = ctx_deadline s"
  "ctx_cancelled (handler_step v i s) = ctx_cancelled s"
  "after_deadline (handler_step v i s) = after_deadline s"
  by (auto simp: handler_step_def resume_fields split: prod.splits)

lemma job_step_fields [simp]:
  "pc (job_step v i s) = pc s" "now (job_step v i s) = now s"
  "sig (job_step v i s) = sig s" "listener (job_step v i s) = listener s"
  "handlers (job_step v i s) = handlers s"
  "shutdown_deadline (job_step v i s) = shutdown_deadline s"
  "ctx_deadline (job_step v i s) = ctx_deadline s"
  "ctx_cancelled (job_step v i s) = ctx_cancelled s"
  "after_deadline (job_step v i s) = after_deadline s"
  by (auto simp: job_step_def resume_fields split: prod.splits)

lemma resume_finished: "finished g \<Longrightarrow> resume v g s = (g, s)"
  by (simp add: resume_def next_action_def finished_def)

lemma idle_handler_step: "idle s \<Longrightarrow> handler_step v i s = s"
  by (simp add: handler_step_def idle_def list_all_length resume_finished)

lemma quiet_handler_step: "quiet s \<Longrightarrow> quiet (handler_step v i s)"
  unfolding quiet_def by (cases "idle s") (simp_all add: idle_handler_step)

lemma quiet_job_step: "quiet s \<Longrightarrow> quiet (job_step v j s)"
  by (simp add: quiet_def idle_def)

lemma job_line_main:
  "job_line l \<Longrightarrow> \<not> is_received l \<and> l \<noteq> ShutdownFailed \<and> l \<noteq> WaitingJobs \<and> l \<noteq> ListenFailed
     \<and> l \<noteq> JobsFinished \<and> l \<noteq> WaitTimeout"
  by (cases l) simp_all

lemma job_step_cases:
  assumes "j < length (jobs s)" and "job_ok (jobs s ! j)"
  obtains
    (stay) "job_step v j s = s"
  | (logs) l g' where "performed (jobs s ! j) = Log l # performed g'" "job_line l"
      "job_step v j s = s\<lparr>log := log s @ [l], jobs := (jobs s)[j := g']\<rparr>"
  | (sleeps) d g' where "performed (jobs s ! j) = Sleep d # performed g'"
      "job_step v j s = s\<lparr>jobs := (jobs s)[j := g']\<rparr>"
  | (dn) g' where "performed (jobs s ! j) = WgDone # performed g'"
      "job_step v j s = (wg_add (- 1) s)\<lparr>jobs := (jobs s)[j := g']\<rparr>"
proof (cases "now s < wake (jobs s ! j)")
  case True
  then have "job_step v j s = s"
    using assms(1) by (simp add: job_step_def resume_def)
  then show ?thesis by (rule stay)
next
  case False
  show ?thesis
  proof (cases "next_action (jobs s ! j)")
    case None
    then have "job_step v j s = s"
      using assms(1) by (simp add: job_step_def resume_def)
    then show ?thesis by (rule stay)
  next
    case (Some p)
    obtain a g0 where p: "p = (a, g0)" by (cases p)
    have perf: "performed (jobs s ! j) = a # performed g0"
      using Some p by (simp add: next_action_performed)
    then have ja: "job_action a"
      using assms(2) by (simp add: job_ok_def)
    have st: "job_step v j s = (exec v a s)\<lparr>jobs := (jobs (exec v a s))[j := sleep_until a (now s) g0]\<rparr>"
      using Some p False assms(1) by (simp add: job_step_def resume_def)
    show ?thesis
    proof (cases a)
      case (Log l)
      with st perf ja show ?thesis
        by (intro logs [of l "sleep_until a (now s) g0"]) simp_all
    next
      case (Sleep d)
      with st perf show ?thesis
        by (intro sleeps [of d "sleep_until a (now s) g0"]) simp_all
    next
      case WgDone
      with st perf show ?thesis
        by (intro dn [of "sleep_until a (now s) g0"]) (simp_all add: wg_add_def)
    qed (use ja in simp_all)
  qed
qed

lemma tracked_job_step:
  assumes t: "tracked s"
  shows "tracked (job_step v j s)"
proof (cases "j < length (jobs s)")
  case False
  then show ?thesis using t by (simp add: job_step_def)
next
  case True
  let ?g = "jobs s ! j"
  have ok: "job_ok ?g"
    using t True by (simp add: tracked_def list_all_nth)
  have nonneg: "0 \<le> sum_list (map (\<lambda>h. pending (body h)) (handlers s))"
    using t by (intro sum_list_nonneg) (auto simp: tracked_def handler_ok_def list_all_iff registers_first_pending)
  have le: "dones ?g \<le> sum_list (map dones (jobs s))"
    using True by (intro nth_le_sum_list) (simp_all add: list_all_iff dones_def)
  from True ok show ?thesis
  proof (cases rule: job_step_cases [where v = v])
    case stay
    then show ?thesis using t by simp
  next
    case (logs l g')
    have "job_ok g'" and "dones g' = dones ?g"
      using ok logs(1) by (simp_all add: job_ok_def dones_def)
    then show ?thesis
      using t True logs
      by (simp add: tracked_def registered_def list_all_update sum_list_map_update)
  next
    case (sleeps d g')
    have "job_ok g'" and "dones g' = dones ?g"
      using ok sleeps(1) by (simp_all add: job_ok_def dones_def)
    then show ?thesis
      using t True sleeps
      by (simp add: tracked_def registered_def list_all_update sum_list_map_update)
  next
    case (dn g')
    have ok': "job_ok g'" and d: "dones ?g = dones g' + 1"
      using ok dn(1) by (simp_all add: job_ok_def dones_def)
    have "0 \<le> dones g'"
      by (simp add: dones_def)
    then have "0 \<le> wg s + - 1"
      using t le nonneg d by (simp add: tracked_def registered_def)
    then show ?thesis
      using t True dn ok' d
      by (simp add: tracked_def registered_def list_all_update sum_list_map_update wg_add_def)
  qed
qed

subsection \<open>The coordinator\<close>

lemma tracked_accept: "v \<noteq> WrongSimply \<Longrightarrow> tracked s \<Longrightarrow> tracked (accept v r1 r2 r3 s)"
  by (simp add: accept_def tracked_def registered_def handler_ok_def ServeHTTP_ok ServeHTTP_pending)

lemma tracked_main_step: "tracked s \<Longrightarrow> tracked (main_step v first s)"
  by (auto simp: main_step_def wait_jobs_def main_returns_def tracked_def registered_def
      split: pc.splits option.splits variant.splits)

lemma tracked_others:
  "tracked s \<Longrightarrow> tracked (listener_step v s)"
  "tracked s \<Longrightarrow> tracked (listen_error v s)"
  "tracked s \<Longrightarrow> tracked (deliver v sg s)"
  "tracked s \<Longrightarrow> tracked (shutdown_returns v r s)"
  "tracked s \<Longrightarrow> tracked (waiter_step v s)"
  "tracked s \<Longrightarrow> tracked (s\<lparr>now := t\<rparr>)"
  by (auto simp: listener_step_def listen_error_def deliver_def shutdown_returns_def
      shutdown_fails_def waiter_step_def tracked_def registered_def
      split: lstate.splits shutdown_result.splits variant.splits)

lemma tracked_step: "v \<noteq> WrongSimply \<Longrightarrow> tracked s \<Longrightarrow> tracked (step v e s)"
  by (cases e)
    (simp_all add: step_def tracked_accept tracked_main_step tracked_others
      tracked_handler_step tracked_job_step)

lemma quiet_main_step: "quiet s \<Longrightarrow> quiet (main_step v first s)"
  by (auto simp: main_step_def wait_jobs_def main_returns_def quiet_def idle_def
      split: pc.splits option.splits variant.splits)

lemma quiet_others:
  "quiet s \<Longrightarrow> quiet (listener_step v s)"
  "quiet s \<Longrightarrow> quiet (listen_error v s)"
  "quiet s \<Longrightarrow> quiet (deliver v sg s)"
  "quiet s \<Longrightarrow> quiet (shutdown_returns v r s)"
  "quiet s \<Longrightarrow> quiet (waiter_step v s)"
  "quiet s \<Longrightarrow> quiet (accept v r1 r2 r3 s)"
  "quiet s \<Longrightarrow> quiet (s\<lparr>now := t\<rparr>)"
  by (auto simp: listener_step_def listen_error_def deliver_def shutdown_returns_def
      shutdown_fails_def waiter_step_def quiet_def idle_def accept_def in_shutdown_def
      split: lstate.splits shutdown_result.splits variant.splits)

lemma quiet_step: "quiet s \<Longrightarrow> quiet (step v e s)"
  by (cases e)
    (simp_all add: step_def quiet_main_step quiet_others quiet_handler_step quiet_job_step)

lemma once_main_step: " once s \<Longrightarrow> once (main_step v first s)"
  by (cases "pc s"; cases v; cases "sig s")
    (simp_all add: main_step_def wait_jobs_def main_returns_def once_def in_shutdown_def shutdowns_def)

lemma once_others:
  " once s \<Longrightarrow> once (listener_step v s)"
  " once s \<Longrightarrow> once (listen_error v s)"
  " once s \<Longrightarrow> once (deliver v sg s)"
  " once s \<Longrightarrow> once (shutdown_returns v r s)"
  " once s \<Longrightarrow> once (waiter_step v s)"
  " once s \<Longrightarrow> once (accept v r1 r2 r3 s)"
  " once s \<Longrightarrow> once (s\<lparr>now := t\<rparr>)"
  by (cases "pc s";
      simp add: listener_step_def listen_error_def deliver_def shutdown_returns_def
        shutdown_fails_def waiter_step_def once_def accept_def in_shutdown_def shutdowns_def
        split: lstate.splits shutdown_result.splits variant.splits)+

lemma fatal_main_step: "status s = Running \<Longrightarrow> fatal s \<Longrightarrow> fatal (main_step v first s)"
  by (cases "pc s"; cases v; cases "sig s")
    (simp_all add: main_step_def wait_jobs_def main_returns_def fatal_def in_shutdown_def shutdowns_def)

lemma fatal_others:
  "status s = Running \<Longrightarrow> fatal s \<Longrightarrow> fatal (listener_step v s)"
  "status s = Running \<Longrightarrow> fatal s \<Longrightarrow> fatal (listen_error v s)"
  "status s = Running \<Longrightarrow> fatal s \<Longrightarrow> fatal (deliver v sg s)"
  "status s = Running \<Longrightarrow> fatal s \<Longrightarrow> fatal (shutdown_returns v r s)"
  "status s = Running \<Longrightarrow> fatal s \<Longrightarrow> fatal (waiter_step v s)"
  "status s = Running \<Longrightarrow> fatal s \<Longrightarrow> fatal (accept v r1 r2 r3 s)"
  "status s = Running \<Longrightarrow> fatal s \<Longrightarrow> fatal (s\<lparr>now := t\<rparr>)"
  by (cases "pc s";
      simp add: listener_step_def listen_error_def deliver_def shutdown_returns_def
        shutdown_fails_def waiter_step_def fatal_def accept_def in_shutdown_def shutdowns_def
        split: lstate.splits shutdown_result.splits variant.splits)+

lemma waited_main_step: "status s = Running \<Longrightarrow> waited s \<Longrightarrow> waited (main_step v first s)"
  by (cases "pc s"; cases v; cases "sig s")
    (simp_all add: main_step_def wait_jobs_def main_returns_def waited_def in_shutdown_def shutdowns_def)

lemma waited_others:
  "status s = Running \<Longrightarrow> waited s \<Longrightarrow> waited (listener_step v s)"
  "status s = Running \<Longrightarrow> waited s \<Longrightarrow> waited (listen_error v s)"
  "status s = Running \<Longrightarrow> waited s \<Longrightarrow> waited (deliver v sg s)"
  "status s = Running \<Longrightarrow> waited s \<Longrightarrow> waited (shutdown_returns v r s)"
  "status s = Running \<Longrightarrow> waited s \<Longrightarrow> waited (waiter_step v s)"
  "status s = Running \<Longrightarrow> waited s \<Longrightarrow> waited (accept v r1 r2 r3 s)"
  "status s = Running \<Longrightarrow> waited s \<Longrightarrow> waited (s\<lparr>now := t\<rparr>)"
  by (cases "pc s";
      simp add: listener_step_def listen_error_def deliver_def shutdown_returns_def
        shutdown_fails_def waiter_step_def waited_def accept_def in_shutdown_def shutdowns_def
        split: lstate.splits shutdown_result.splits variant.splits)+

lemma handler_step_log:
  assumes "tracked s"
  shows "log (handler_step v i s) = log s \<and> status (handler_step v i s) \<in> {status s, Panicked}"
proof (cases "i < length (handlers s)")
  case False
  then show ?thesis by (simp add: handler_step_def)
next
  case True
  then have "handler_ok (handlers s ! i)"
    using assms by (simp add: tracked_def list_all_nth)
  with True show ?thesis
    by (cases rule: handler_step_cases [where v = v]) (simp_all add: wg_add_def)
qed

lemma job_step_log:
  assumes "tracked s"
  shows "(log (job_step v j s) = log s \<or> (\<exists>l. job_line l \<and> log (job_step v j s) = log s @ [l]))
    \<and> status (job_step v j s) \<in> {status s, Panicked}"
proof (cases "j < length (jobs s)")
  case False
  then show ?thesis by (simp add: job_step_def)
next
  case True
  then have "job_ok (jobs s ! j)"
    using assms by (simp add: tracked_def list_all_nth)
  with True show ?thesis
    by (cases rule: job_step_cases [where v = v]) (auto simp: wg_add_def)
qed

lemma coord_handler_step:
  assumes "tracked s" and "status s = Running"
  shows "once s \<Longrightarrow> once (handler_step v i s)"
    and "fatal s \<Longrightarrow> fatal (handler_step v i s)"
    and "waited s \<Longrightarrow> waited (handler_step v i s)"
  using handler_step_log [OF assms(1), of v i] assms(2)
  by (auto simp: once_def fatal_def waited_def shutdowns_def in_shutdown_def)

lemma coord_job_step:
  assumes "tracked s" and "status s = Running"
  shows "once s \<Longrightarrow> once (job_step v j s)"
    and "fatal s \<Longrightarrow> fatal (job_step v j s)"
    and "waited s \<Longrightarrow> waited (job_step v j s)"
  using job_step_log [OF assms(1), of v j] assms(2)
  by (auto simp: once_def fatal_def waited_def shutdowns_def in_shutdown_def dest: job_line_main)

lemma once_step: "tracked s \<Longrightarrow> once s \<Longrightarrow> once (step v e s)"
  by (cases e) (simp_all add: step_def once_main_step once_others coord_handler_step coord_job_step)

lemma fatal_step: "tracked s \<Longrightarrow> fatal s \<Longrightarrow> fatal (step v e s)"
  by (cases e) (simp_all add: step_def fatal_main_step fatal_others coord_handler_step coord_job_step)

lemma waited_step: "tracked s \<Longrightarrow> waited s \<Longrightarrow> waited (step v e s)"
  by (cases e) (simp_all add: step_def waited_main_step waited_others coord_handler_step coord_job_step)

lemma inv_step: "v \<noteq> WrongSimply \<Longrightarrow> inv s \<Longrightarrow> inv (step v e s)"
  by (simp add: inv_def tracked_step quiet_step once_step fatal_step waited_step)

lemma inv_init: "inv (init v)"
  by (simp add: inv_def init_def tracked_def registered_def quiet_def once_def fatal_def waited_def
      shutdowns_def in_shutdown_def)

lemma inv_run: "v \<noteq> WrongSimply \<Longrightarrow> inv s \<Longrightarrow> inv (run v es s)"
  by (induction es arbitrary: s) (simp_all add: inv_step)

lemma inv_reachable: "v \<noteq> WrongSimply \<Longrightarrow> inv (run v es (init v))"
  by (simp add: inv_run inv_init)

subsection \<open>Runs\<close>

lemma run_stopped: "status s \<noteq> Running \<Longrightarrow> run v es s = s"
  by (induction es) (simp_all add: step_def)

lemma run_append: "run v (es @ es') s = run v es' (run v es s)"
  by (induction es arbitrary: s) simp_all

subsection \<open>What the counter counts\<close>

lemma dones_outstanding: "job_ok g \<Longrightarrow> dones g = (if outstanding g then 1 else 0)"
  using count_list_0_iff [of "performed g" WgDone]
  by (auto simp: job_ok_def dones_def outstanding_def)

lemma sum_dones: "list_all job_ok gs \<Longrightarrow> sum_list (map dones gs) = int (length (filter outstanding gs))"
  by (induction gs) (simp_all add: dones_outstanding)

lemma registered_units:
  "tracked s \<Longrightarrow> wg s = awaiting_dispatch s + int (units_outstanding s)"
  by (simp add: tracked_def registered_def awaiting_dispatch_def units_outstanding_def sum_dones)

lemma awaiting_dispatch_nonneg: "tracked s \<Longrightarrow> 0 \<le> awaiting_dispatch s"
  unfolding awaiting_dispatch_def
  by (intro sum_list_nonneg) (auto simp: tracked_def handler_ok_def list_all_iff registers_first_pending)

lemma sum_list_zero:
  fixes f :: "'a \<Rightarrow> int"
  shows "list_all (\<lambda>x. f x = 0) xs \<Longrightarrow> sum_list (map f xs) = 0"
  by (induction xs) simp_all

lemma awaiting_dispatch_idle: "idle s \<Longrightarrow> awaiting_dispatch s = 0"
proof -
  assume "idle s"
  then have "list_all (\<lambda>h. pending (body h) = 0) (handlers s)"
    by (auto simp: idle_def finished_def list_all_iff)
  then show ?thesis
    unfolding awaiting_dispatch_def by (rule sum_list_zero)
qed


subsection \<open>A job that never ends\<close>

lemma outstanding_counted:
  assumes "tracked s" and "j < length (jobs s)" and "outstanding (jobs s ! j)"
  shows "0 < wg s"
proof -
  have "jobs s ! j \<in> set (filter outstanding (jobs s))"
    using assms(2,3) by simp
  then have "filter outstanding (jobs s) \<noteq> []"
    by (metis empty_iff empty_set)
  then have "0 < units_outstanding s"
    by (simp add: units_outstanding_def)
  then show ?thesis
    using registered_units [OF assms(1)] awaiting_dispatch_nonneg [OF assms(1)] by simp
qed

lemma job_step_jobs:
  assumes "tracked s"
  shows "\<exists>g'. jobs (job_step v k s) = (jobs s)[k := g']"
proof (cases "k < length (jobs s)")
  case False
  then have "jobs (job_step v k s) = (jobs s)[k := jobs s ! k]"
    by (simp add: job_step_def)
  then show ?thesis ..
next
  case True
  then have "job_ok (jobs s ! k)"
    using assms by (simp add: tracked_def list_all_nth)
  with True show ?thesis
  proof (cases rule: job_step_cases [where v = v])
    case stay
    then have "jobs (job_step v k s) = (jobs s)[k := jobs s ! k]"
      by simp
    then show ?thesis ..
  qed (auto simp: wg_add_def)
qed

lemma stuck_job_step:
  assumes "tracked s" and "stuck j s" and "k \<noteq> j"
  shows "stuck j (job_step Simple k s)"
proof -
  obtain g' where g: "jobs (job_step Simple k s) = (jobs s)[k := g']"
    using job_step_jobs [OF assms(1)] by blast
  have "tracked (job_step Simple k s)"
    using assms(1) by (rule tracked_job_step)
  then have "status (job_step Simple k s) \<noteq> Panicked"
    by (simp add: tracked_def)
  then have "status (job_step Simple k s) = Running"
    using job_step_log [OF assms(1), of Simple k] assms(2) by (auto simp: stuck_def)
  then show ?thesis
    using assms(2,3) g by (simp add: stuck_def)
qed

lemma stuck_step:
  assumes i: "inv s" and st: "stuck j s" and e: "e \<noteq> Job j"
  shows "stuck j (step Simple e s)"
proof -
  have t: "tracked s" and q: "quiet s"
    using i by (simp_all add: inv_def)
  have r: "status s = Running" and p: "pc s = P_Wait"
    using st by (simp_all add: stuck_def)
  have w: "wg s \<noteq> 0"
    using outstanding_counted [OF t] st by (auto simp: stuck_def)
  have idl: "idle s"
    using q p by (simp add: quiet_def)
  show ?thesis
  proof (cases e)
    case (Job k)
    then show ?thesis
      using stuck_job_step [OF t st, of k] e r by (simp add: step_def)
  next
    case (Handler k)
    then show ?thesis
      using st r idl by (simp add: step_def idle_handler_step)
  next
    case (MainStep first)
    then show ?thesis
      using st r p w by (simp add: step_def main_step_def wait_jobs_def)
  qed (use st r p in \<open>simp_all add: step_def stuck_def listener_step_def listen_error_def
        deliver_def accept_def shutdown_returns_def waiter_step_def in_shutdown_def
        split: lstate.splits\<close>)
qed

lemma stuck_run:
  "inv s \<Longrightarrow> stuck j s \<Longrightarrow> Job j \<notin> set es \<Longrightarrow> stuck j (run Simple es s)"
proof (induction es arbitrary: s)
  case Nil
  then show ?case by simp
next
  case (Cons e es)
  have "inv (step Simple e s)"
    using Cons.prems(1) by (simp add: inv_step)
  moreover have "stuck j (step Simple e s)"
    using Cons.prems by (intro stuck_step) auto
  ultimately show ?case
    using Cons.IH Cons.prems(3) by simp
qed

section \<open>The claims\<close>

lemmas eval_defs = step_def main_step_def wait_jobs_def main_returns_def listener_step_def
  listen_error_def deliver_def accept_def handler_step_def job_step_def resume_def
  next_action_def sleep_until_def wg_add_def shutdown_returns_def shutdown_fails_def
  waiter_step_def in_shutdown_def idle_def finished_def ctx_done_def after_fired_def
  init_def Second_def Hour_def Intn4_def with_grace_def startup_def request_served_def
  jobs_started_def interrupted_def triggered_def waiting_def no_work_def
  units_outstanding_def outstanding_def performed_def shutdowns_def exit_code_def

subsection \<open>The two phases of the termination sequence\<close>




subsection \<open>The result of the wait\<close>

text \<open>
  Claim C2 says that when units are outstanding at the end of the grace period the wait
  reports the timeout and never that all work has finished. The program misses this:
  \<open>ctxJobs\<close> carries the grace period as its own timeout, so \<open>ctxJobs.Done()\<close> is closed at
  the deadline as well as by \<open>cancelJobs\<close>, and its timer is started before the one of
  \<open>time.After\<close>. In the execution \<open>grace_exceeded\<close> (the run of the README, with the job of
  one hour) the \<open>select\<close> takes the first case at the deadline: the program logs
  \<open>jobs have finished\<close> and not the timeout, 30 seconds after the stop, while the counter
  is 1 and one unit is outstanding.
\<close>

theorem grace_deadline_reports_jobs_finished:
  "let s = run with_grace grace_exceeded (init with_grace)
   in status s = Exited 0 \<and> JobsFinished \<in> set (log s) \<and> WaitTimeout \<notin> set (log s)
      \<and> wg s = 1 \<and> units_outstanding s = 1 \<and> now s = 32 * Second
      \<and> now s = ctx_deadline s \<and> now s < after_deadline s \<and> \<not> ctx_cancelled s"
  by (simp add: grace_exceeded_def eval_defs)


subsection \<open>The work tracker\<close>


text \<open>
  Claim C6: the handler registers its units (\<open>wg.Add(4)\<close>) before it starts any of them
  and before it returns. So in every execution the units started and not yet ended are
  all counted; once every handler has returned the counter is exactly their number; and
  this is so whenever \<open>main\<close> waits for the jobs, so a counter of zero seen there means
  that no unit of an answered request is left.
\<close>

theorem units_registered_before_response:
  "registers_first (ServeHTTP (WithTimeout g) r1 r2 r3)
   \<and> int (units_outstanding (run (WithTimeout g) es (init (WithTimeout g))))
     \<le> wg (run (WithTimeout g) es (init (WithTimeout g)))
   \<and> (idle (run (WithTimeout g) es (init (WithTimeout g))) \<longrightarrow>
        wg (run (WithTimeout g) es (init (WithTimeout g)))
          = int (units_outstanding (run (WithTimeout g) es (init (WithTimeout g)))))
   \<and> (pc (run (WithTimeout g) es (init (WithTimeout g))) \<in> {P_LogWaiting, P_Wait} \<longrightarrow>
        wg (run (WithTimeout g) es (init (WithTimeout g)))
          = int (units_outstanding (run (WithTimeout g) es (init (WithTimeout g)))))"
proof -
  let ?s = "run (WithTimeout g) es (init (WithTimeout g))"
  have i: "inv ?s"
    by (rule inv_reachable) simp
  then have t: "tracked ?s" and q: "quiet ?s"
    by (simp_all add: inv_def)
  have eq: "wg ?s = awaiting_dispatch ?s + int (units_outstanding ?s)"
    using t by (rule registered_units)
  have "int (units_outstanding ?s) \<le> wg ?s"
    using eq awaiting_dispatch_nonneg [OF t] by simp
  moreover have "idle ?s \<longrightarrow> wg ?s = int (units_outstanding ?s)"
    using eq awaiting_dispatch_idle by simp
  moreover have "pc ?s \<in> {P_LogWaiting, P_Wait} \<longrightarrow> wg ?s = int (units_outstanding ?s)"
    using eq awaiting_dispatch_idle q by (auto simp: quiet_def)
  ultimately show ?thesis
    using ServeHTTP_ok by simp
qed

theorem units_registered_before_response_witness:
  "let s = run with_grace waiting (init with_grace)
   in idle s \<and> pc s \<in> {P_LogWaiting, P_Wait} \<and> wg s = int (units_outstanding s) \<and> wg s = 3"
  using units_registered_before_response [of "30 * Second" 0 1 2 waiting]
  by (simp add: eval_defs)

subsection \<open>Exit codes\<close>

text \<open>
  Claim C4: in every execution of the program with a grace period, a shutdown that ends
  with \<open>jobs have finished\<close> (clean) or with the timeout of the wait (degraded) exits with
  status 0. A failure of \<open>ListenAndServe\<close> exits with status 1 at once: whenever it is
  logged the process has exited with status 1, \<open>Shutdown\<close> has not been called, the wait
  for the jobs has not begun, and no later event changes anything.
\<close>

theorem exit_codes:
  "(JobsFinished \<in> set (log (run (WithTimeout g) es (init (WithTimeout g))))
      \<or> WaitTimeout \<in> set (log (run (WithTimeout g) es (init (WithTimeout g)))) \<longrightarrow>
      exit_code (run (WithTimeout g) es (init (WithTimeout g))) = Some 0)
   \<and> (ListenFailed \<in> set (log (run (WithTimeout g) es (init (WithTimeout g)))) \<longrightarrow>
      exit_code (run (WithTimeout g) es (init (WithTimeout g))) = Some 1
      \<and> \<not> in_shutdown (run (WithTimeout g) es (init (WithTimeout g)))
      \<and> ShutdownFailed \<notin> set (log (run (WithTimeout g) es (init (WithTimeout g))))
      \<and> WaitingJobs \<notin> set (log (run (WithTimeout g) es (init (WithTimeout g))))
      \<and> run (WithTimeout g) es' (run (WithTimeout g) es (init (WithTimeout g)))
          = run (WithTimeout g) es (init (WithTimeout g)))
   \<and> (status (run (WithTimeout g) es (init (WithTimeout g))) = Running
        \<and> listener (run (WithTimeout g) es (init (WithTimeout g))) = L_Serving
        \<and> \<not> in_shutdown (run (WithTimeout g) es (init (WithTimeout g))) \<longrightarrow>
      exit_code (step (WithTimeout g) ListenError (run (WithTimeout g) es (init (WithTimeout g))))
        = Some 1
      \<and> ListenFailed \<in> set (log (step (WithTimeout g) ListenError
            (run (WithTimeout g) es (init (WithTimeout g))))))"
proof -
  let ?v = "WithTimeout g"
  let ?s = "run ?v es (init ?v)"
  have i: "inv ?s"
    by (rule inv_reachable) simp
  then have f: "fatal ?s" and w: "waited ?s"
    by (simp_all add: inv_def)
  have a: "JobsFinished \<in> set (log ?s) \<or> WaitTimeout \<in> set (log ?s) \<longrightarrow> exit_code ?s = Some 0"
    using w by (auto simp: waited_def exit_code_def)
  have b: "ListenFailed \<in> set (log ?s) \<longrightarrow>
      exit_code ?s = Some 1 \<and> \<not> in_shutdown ?s \<and> ShutdownFailed \<notin> set (log ?s)
      \<and> WaitingJobs \<notin> set (log ?s) \<and> run ?v es' ?s = ?s"
  proof
    assume l: "ListenFailed \<in> set (log ?s)"
    then have st: "status ?s = Exited 1" and ns: "\<not> in_shutdown ?s"
      using f by (simp_all add: fatal_def)
    have "ShutdownFailed \<notin> set (log ?s)"
      using f ns by (auto simp: fatal_def in_shutdown_def)
    moreover have "WaitingJobs \<notin> set (log ?s)"
      using w ns by (auto simp: waited_def in_shutdown_def)
    moreover have "run ?v es' ?s = ?s"
      using st by (simp add: run_stopped)
    ultimately show "exit_code ?s = Some 1 \<and> \<not> in_shutdown ?s \<and> ShutdownFailed \<notin> set (log ?s)
      \<and> WaitingJobs \<notin> set (log ?s) \<and> run ?v es' ?s = ?s"
      using st ns by (simp add: exit_code_def)
  qed
  have c: "status ?s = Running \<and> listener ?s = L_Serving \<and> \<not> in_shutdown ?s \<longrightarrow>
      exit_code (step ?v ListenError ?s) = Some 1
      \<and> ListenFailed \<in> set (log (step ?v ListenError ?s))"
    by (simp add: step_def listen_error_def exit_code_def)
  show ?thesis
    using a b c by blast
qed

theorem exit_codes_witness:
  "(let s = run with_grace all_finished (init with_grace)
    in JobsFinished \<in> set (log s) \<and> exit_code s = Some 0 \<and> units_outstanding s = 0)
   \<and> (let s = run with_grace grace_exceeded_tie (init with_grace)
    in WaitTimeout \<in> set (log s) \<and> exit_code s = Some 0 \<and> units_outstanding s = 1)
   \<and> (let s = run with_grace listen_fails (init with_grace)
    in ListenFailed \<in> set (log s) \<and> exit_code s = Some 1 \<and> \<not> in_shutdown s
       \<and> WaitingJobs \<notin> set (log s))
   \<and> (let s = run with_grace startup (init with_grace)
    in status s = Running \<and> listener s = L_Serving \<and> \<not> in_shutdown s
       \<and> exit_code (step with_grace ListenError s) = Some 1)"
  using exit_codes [of "30 * Second" all_finished "[]"]
    exit_codes [of "30 * Second" grace_exceeded_tie "[]"]
    exit_codes [of "30 * Second" listen_fails "[Sig SIGINT]"]
    exit_codes [of "30 * Second" startup "[]"]
  by (simp add: all_finished_def grace_exceeded_tie_def listen_fails_def eval_defs)

subsection \<open>Termination triggers\<close>

text \<open>
  Claim C7 says that a trigger that arrives before \<open>main\<close> waits on its channel is kept
  and honoured once \<open>main\<close> waits. The program loses it: \<open>termChan\<close> has no buffer and
  package \<open>signal\<close> does not block, so a signal that arrives between \<open>signal.Notify\<close> and
  the receive is dropped. In the execution \<open>early_trigger\<close> \<open>main\<close> then blocks in the
  receive, and an hour later the process still runs and no shutdown has begun. A signal
  that arrives before \<open>signal.Notify\<close> ends the process, without any shutdown either.
\<close>

theorem early_trigger_dropped:
  "(let s = run with_grace early_trigger (init with_grace)
    in status s = Running \<and> pc s = P_Recv \<and> sig s = None \<and> shutdowns s = 0
       \<and> log s = [ServerStarting] \<and> now s = Hour)
   \<and> (let s = run with_grace trigger_before_notify (init with_grace)
    in status s = Killed SIGINT \<and> shutdowns s = 0 \<and> log s = [ServerStarting])"
  by (simp add: early_trigger_def trigger_before_notify_def eval_defs)



subsection \<open>The program without coordination\<close>

text \<open>
  Claim C9: in the first program the handler starts its three jobs without registering
  them, and a signal ends the process. When the signal arrives right after the handler has
  started the jobs, whatever the durations drawn and whatever comes later, the process
  has ended and none of the three jobs has finished.
\<close>

theorem wrong_simply_exits_with_jobs_running:
  "status (run WrongSimply [Request r1 r2 r3, Handler 0, Handler 0, Handler 0, Handler 0]
            (init WrongSimply)) = Running
   \<and> jobs (run WrongSimply [Request r1 r2 r3, Handler 0, Handler 0, Handler 0, Handler 0]
            (init WrongSimply))
      = [slowJob WrongSimply ''job1'' (Intn4 r1), slowJob WrongSimply ''job2'' (Intn4 r2),
         slowJob WrongSimply ''job3'' (Intn4 r3)]
   \<and> list_all (\<lambda>j. \<not> finished j)
        (jobs (run WrongSimply
           ([Request r1 r2 r3, Handler 0, Handler 0, Handler 0, Handler 0] @ Sig sg # es)
           (init WrongSimply)))
   \<and> length (jobs (run WrongSimply
           ([Request r1 r2 r3, Handler 0, Handler 0, Handler 0, Handler 0] @ Sig sg # es)
           (init WrongSimply))) = 3
   \<and> status (run WrongSimply
           ([Request r1 r2 r3, Handler 0, Handler 0, Handler 0, Handler 0] @ Sig sg # es)
           (init WrongSimply)) = Killed sg"
proof -
  let ?d = "[Request r1 r2 r3, Handler 0, Handler 0, Handler 0, Handler 0]"
  define s0 where "s0 = run WrongSimply ?d (init WrongSimply)"
  have s: "s0 = (init WrongSimply)
      \<lparr>handlers := [\<lparr>body = [], deferred = [], wake = 0\<rparr>],
        jobs := [slowJob WrongSimply ''job1'' (Intn4 r1), slowJob WrongSimply ''job2'' (Intn4 r2),
                 slowJob WrongSimply ''job3'' (Intn4 r3)]\<rparr>"
    unfolding s0_def
    by (simp add: step_def accept_def handler_step_def resume_def next_action_def
        sleep_until_def in_shutdown_def init_def)
  have r: "status s0 = Running"
    by (simp add: s init_def)
  have "run WrongSimply (?d @ Sig sg # es) (init WrongSimply) = run WrongSimply (Sig sg # es) s0"
    unfolding s0_def by (rule run_append)
  also have "\<dots> = run WrongSimply es (s0\<lparr>status := Killed sg\<rparr>)"
    using r by (simp add: step_def deliver_def)
  also have "\<dots> = s0\<lparr>status := Killed sg\<rparr>"
    by (rule run_stopped) simp
  finally have k:
    "run WrongSimply (?d @ Sig sg # es) (init WrongSimply) = s0\<lparr>status := Killed sg\<rparr>" .
  have "status s0 = Running
      \<and> jobs s0 = [slowJob WrongSimply ''job1'' (Intn4 r1), slowJob WrongSimply ''job2'' (Intn4 r2),
         slowJob WrongSimply ''job3'' (Intn4 r3)]
      \<and> list_all (\<lambda>j. \<not> finished j) (jobs (s0\<lparr>status := Killed sg\<rparr>))
      \<and> length (jobs (s0\<lparr>status := Killed sg\<rparr>)) = 3
      \<and> status (s0\<lparr>status := Killed sg\<rparr>) = Killed sg"
    by (simp add: s init_def finished_def)
  then show ?thesis
    unfolding k unfolding s0_def .
qed

subsection \<open>The wait without a limit\<close>

text \<open>
  Claim C10: in the simple program \<open>main\<close>, once \<open>Shutdown\<close> has returned without error,
  blocks in \<open>wg.Wait()\<close> with no deadline. When a unit that has begun never ends (job \<open>j\<close>
  has not called \<open>Done\<close> and never runs again), the process is still running and \<open>main\<close>
  still waiting after any events, however much time they let pass. When the counter is
  zero \<open>main\<close> goes on and the process exits with status 0.
\<close>

theorem simple_wait_unbounded:
  "(pc (run Simple es0 (init Simple)) = P_Wait
      \<and> status (run Simple es0 (init Simple)) = Running
      \<and> j < length (jobs (run Simple es0 (init Simple)))
      \<and> outstanding (jobs (run Simple es0 (init Simple)) ! j)
      \<and> Job j \<notin> set es \<longrightarrow>
    status (run Simple es (run Simple es0 (init Simple))) = Running
      \<and> pc (run Simple es (run Simple es0 (init Simple))) = P_Wait)
   \<and> (pc (run Simple es0 (init Simple)) = P_Wait
      \<and> status (run Simple es0 (init Simple)) = Running
      \<and> wg (run Simple es0 (init Simple)) = 0 \<longrightarrow>
    exit_code (step Simple (MainStep first) (run Simple es0 (init Simple))) = Some 0)"
proof -
  let ?s = "run Simple es0 (init Simple)"
  have i: "inv ?s"
    by (rule inv_reachable) simp
  have a: "stuck j ?s \<and> Job j \<notin> set es \<longrightarrow> stuck j (run Simple es ?s)"
    using stuck_run [OF i] by blast
  have b: "pc ?s = P_Wait \<and> status ?s = Running \<and> wg ?s = 0 \<longrightarrow>
      exit_code (step Simple (MainStep first) ?s) = Some 0"
    by (simp add: step_def main_step_def wait_jobs_def main_returns_def exit_code_def)
  show ?thesis
    using a b unfolding stuck_def by blast
qed

theorem simple_wait_unbounded_witness:
  "(let s = run Simple waiting (init Simple)
    in pc s = P_Wait \<and> status s = Running \<and> 1 < length (jobs s) \<and> outstanding (jobs s ! 1)
       \<and> Job 1 \<notin> set job2_never_ends
       \<and> status (run Simple job2_never_ends s) = Running
       \<and> pc (run Simple job2_never_ends s) = P_Wait)
   \<and> (let s = run Simple no_work (init Simple)
    in pc s = P_Wait \<and> status s = Running \<and> wg s = 0
       \<and> exit_code (step Simple (MainStep True) s) = Some 0)"
  using simple_wait_unbounded [of waiting 1 job2_never_ends True]
    simple_wait_unbounded [of no_work 1 job2_never_ends True]
  by (simp add: job2_never_ends_def eval_defs)

end
